theory Spec2Isabelle
  imports Complex_Main
begin

section \<open>Data model of \<open>histogram_axis.py\<close>\<close>

text \<open>
  The edges of a \<open>HistogramAxis\<close> are a one-dimensional numpy array of floats. Two facts
  about numpy arrays matter for the methods below and are kept in the model:
  \<^item> an array is a \<^emph>\<open>view\<close> (start, step, count) on a buffer, and a basic slice
    \<open>e[a:b]\<close> or \<open>e[m::k]\<close> is another view on the same buffer, so a store through the
    slice is seen through the array it was sliced from;
  \<^item> \<open>deepcopy\<close>, \<open>.copy()\<close>, \<open>np.asarray\<close> of a list, \<open>np.linspace\<close> and
    \<open>np.concatenate\<close> allocate a fresh buffer.
  The heap is the list of all buffers, a buffer's address being its position. Floats are
  idealised as reals: order comparisons are exact, arithmetic does not round, and there
  is neither NaN nor infinity.
\<close>

datatype error = TypeError | ValueError | AssertionError | IndexError | ZeroDivisionError

type_synonym heap = "real list list"

record ndarray =
  base :: nat
  start :: nat
  step :: nat
  count :: nat

text \<open>A Python string value: a literal, or \<open>str(l)\<close> of a sequence of floats \<open>l\<close>
  (whose characters depend on float printing and are left symbolic).\<close>

datatype pystr = Text string | StrOf "real list"

record HistogramAxis =
  edges :: ndarray
  label :: "pystr option"

subsection \<open>numpy primitives\<close>

definition arr_vals :: "heap \<Rightarrow> ndarray \<Rightarrow> real list" where
  "arr_vals h v = map (\<lambda>i. h ! base v ! (start v + i * step v)) [0..<count v]"

text \<open>The view lies inside an allocated buffer.\<close>

definition arr_ok :: "heap \<Rightarrow> ndarray \<Rightarrow> bool" where
  "arr_ok h v \<longleftrightarrow> base v < length h \<and>
     (count v = 0 \<or> start v + (count v - 1) * step v < length (h ! base v))"

definition alloc :: "heap \<Rightarrow> real list \<Rightarrow> ndarray \<times> heap" where
  "alloc h xs = (\<lparr>base = length h, start = 0, step = 1, count = length xs\<rparr>, h @ [xs])"

text \<open>Python indexing: a negative index counts from the end, anything else out of
  range raises \<open>IndexError\<close>.\<close>

definition py_index :: "nat \<Rightarrow> int \<Rightarrow> nat option" where
  "py_index n i =
     (if 0 \<le> i \<and> i < int n then Some (nat i)
      else if - int n \<le> i \<and> i < 0 then Some (nat (int n + i))
      else None)"

definition arr_get :: "heap \<Rightarrow> ndarray \<Rightarrow> int \<Rightarrow> error + real" where
  "arr_get h v i =
     (case py_index (count v) i of
        None \<Rightarrow> Inl IndexError
      | Some k \<Rightarrow> Inr (h ! base v ! (start v + k * step v)))"

text \<open>\<open>v[i] = x\<close>: the store goes to the buffer that \<open>v\<close> views.\<close>

definition arr_setitem :: "heap \<Rightarrow> ndarray \<Rightarrow> int \<Rightarrow> real \<Rightarrow> (error + unit) \<times> heap" where
  "arr_setitem h v i x =
     (case py_index (count v) i of
        None \<Rightarrow> (Inl IndexError, h)
      | Some k \<Rightarrow> (Inr (), h[base v := (h ! base v)[start v + k * step v := x]]))"

text \<open>Bound of a slice with step 1 on a sequence of length \<open>n\<close>.\<close>

definition slice_bound :: "nat \<Rightarrow> int \<Rightarrow> nat" where
  "slice_bound n i = (if i < 0 then nat (max (i + int n) 0) else nat (min i (int n)))"

text \<open>\<open>v[lo:hi]\<close>, a view on the buffer of \<open>v\<close>.\<close>

definition arr_slice :: "ndarray \<Rightarrow> int \<Rightarrow> int \<Rightarrow> ndarray" where
  "arr_slice v lo hi =
     (let a = slice_bound (count v) lo; b = slice_bound (count v) hi
      in v\<lparr>start := start v + a * step v, count := b - a\<rparr>)"

text \<open>\<open>v[m::k]\<close> for \<open>k \<ge> 1\<close>, a view on the buffer of \<open>v\<close>.\<close>

definition arr_slice_step :: "ndarray \<Rightarrow> int \<Rightarrow> nat \<Rightarrow> ndarray" where
  "arr_slice_step v m k =
     (let a = slice_bound (count v) m
      in v\<lparr>start := start v + a * step v, step := step v * k,
           count := (count v - a + k - 1) div k\<rparr>)"

text \<open>\<open>np.searchsorted(a, key, side='right')\<close> for one key: numpy's binary search
  (\<open>npy_binsearch\<close>, right side), on the index range \<open>[lo, hi)\<close>.\<close>

function bsearch_right :: "real list \<Rightarrow> real \<Rightarrow> nat \<Rightarrow> nat \<Rightarrow> nat" where
  "bsearch_right a key lo hi =
     (if lo < hi then
        (let mid = lo + (hi - lo) div 2
         in if a ! mid \<le> key then bsearch_right a key (mid + 1) hi
            else bsearch_right a key lo mid)
      else lo)"
  by pat_completeness auto
termination
  by (relation "measure (\<lambda>(a, key, lo, hi). hi - lo)") auto

declare bsearch_right.simps [simp del]

definition searchsorted_right :: "real list \<Rightarrow> real \<Rightarrow> nat" where
  "searchsorted_right a key = bsearch_right a key 0 (length a)"

subsection \<open>Properties and queries of the axis\<close>

text \<open>The test of the \<open>edges\<close> setter: \<open>all(x<y for x, y in zip(e, e[1:]))\<close>.\<close>

definition strictly_increasing :: "real list \<Rightarrow> bool" where
  "strictly_increasing e = list_all (\<lambda>(x, y). x < y) (zip e (drop 1 e))"

definition nbins :: "HistogramAxis \<Rightarrow> int" where
  "nbins self = int (count (edges self)) - 1"

definition bin :: "heap \<Rightarrow> HistogramAxis \<Rightarrow> real \<Rightarrow> int" where
  "bin h self x = int (searchsorted_right (arr_vals h (edges self)) x) - 1"


text \<open>\<open>np.linspace(start, stop, num)\<close> (endpoint included): a negative \<open>num\<close> is a
  \<open>ValueError\<close>; otherwise \<open>num\<close> samples \<open>start + i * step\<close> with
  \<open>step = (stop - start) / (num - 1)\<close>, the last one overwritten by \<open>stop\<close> when
  \<open>num > 1\<close>.\<close>

definition linspace :: "real \<Rightarrow> real \<Rightarrow> int \<Rightarrow> error + real list" where
  "linspace lo hi num =
     (if num < 0 then Inl ValueError
      else let n = nat num
           in if n \<le> 1 then Inr (replicate n lo)
              else Inr (map (\<lambda>i. lo + real i * ((hi - lo) / real (n - 1))) [0..<n - 1] @ [hi]))"

text \<open>\<open>np.allclose(a, b)\<close> on one-dimensional arrays with the default tolerances:
  shapes \<open>(n,)\<close> and \<open>(m,)\<close> broadcast when they are equal or one of them is 1, and
  raise \<open>ValueError\<close> otherwise; the test is \<open>|a - b| <= atol + rtol * |b|\<close> at
  every position.\<close>

definition rtol :: real where "rtol = 1 / 100000"

definition atol :: real where "atol = 1 / 100000000"

definition broadcast :: "nat \<Rightarrow> nat \<Rightarrow> nat option" where
  "broadcast n m =
     (if n = m then Some n else if n = 1 then Some m else if m = 1 then Some n else None)"

definition bc_nth :: "real list \<Rightarrow> nat \<Rightarrow> real" where
  "bc_nth xs i = (if length xs = 1 then xs ! 0 else xs ! i)"

definition allclose :: "real list \<Rightarrow> real list \<Rightarrow> error + bool" where
  "allclose a b =
     (case broadcast (length a) (length b) of
        None \<Rightarrow> Inl ValueError
      | Some k \<Rightarrow>
          Inr (list_all (\<lambda>i. \<bar>bc_nth a i - bc_nth b i\<bar> \<le> atol + rtol * \<bar>bc_nth b i\<bar>) [0..<k]))"

subsection \<open>Construction\<close>

text \<open>What can be assigned to \<open>edges\<close>: a number (\<open>np.asarray\<close> makes it an array of
  dimension 0), a flat list of numbers, or a one-dimensional array.\<close>

datatype arraylike = Scalar real | Seq "real list" | Arr ndarray

text \<open>The body of the \<open>edges\<close> setter up to the assignment: \<open>np.asarray\<close>, the
  assertion on \<open>ndim\<close>, the monotonicity test. It returns the array to be stored.\<close>

definition check_edges :: "heap \<Rightarrow> arraylike \<Rightarrow> (error + ndarray) \<times> heap" where
  "check_edges h e =
     (case e of
        Scalar _ \<Rightarrow> (Inl AssertionError, h)
      | Seq xs \<Rightarrow>
          (let (v, h') = alloc h xs
           in if \<not> strictly_increasing (arr_vals h' v) then (Inl ValueError, h')
              else (Inr v, h'))
      | Arr v \<Rightarrow>
          (if \<not> strictly_increasing (arr_vals h v) then (Inl ValueError, h)
           else (Inr v, h)))"

definition edges_setter ::
  "heap \<Rightarrow> HistogramAxis \<Rightarrow> arraylike \<Rightarrow> (error + HistogramAxis) \<times> heap" where
  "edges_setter h self e =
     (case check_edges h e of
        (Inl err, h') \<Rightarrow> (Inl err, h')
      | (Inr v, h') \<Rightarrow> (Inr (self\<lparr>edges := v\<rparr>), h'))"

text \<open>The \<open>label\<close> setter: \<open>None\<close> and the empty string unset the label, a string is
  kept, anything else is stored as its \<open>str\<close>.\<close>

datatype pyval = PyStr pystr | PySeq "real list"

definition label_setter :: "pyval option \<Rightarrow> pystr option" where
  "label_setter l =
     (case l of
        None \<Rightarrow> None
      | Some (PyStr (Text s)) \<Rightarrow> (if s = [] then None else Some (Text s))
      | Some (PyStr (StrOf xs)) \<Rightarrow> Some (StrOf xs)
      | Some (PySeq xs) \<Rightarrow> Some (StrOf xs))"

text \<open>The first argument of the constructor: an integer bin count, a list of edges,
  an array of edges, or another axis.\<close>

datatype bins_arg = BInt int | BList "real list" | BArr ndarray | BAxis HistogramAxis

definition has_iter :: "bins_arg \<Rightarrow> bool" where
  "has_iter bins = (case bins of BList _ \<Rightarrow> True | BArr _ \<Rightarrow> True | _ \<Rightarrow> False)"

definition new_axis ::
  "pystr option \<Rightarrow> (error + ndarray) \<times> heap \<Rightarrow> (error + HistogramAxis) \<times> heap" where
  "new_axis lab r =
     (case r of
        (Inl err, h') \<Rightarrow> (Inl err, h')
      | (Inr v, h') \<Rightarrow> (Inr \<lparr>edges = v, label = lab\<rparr>, h'))"

text \<open>\<open>HistogramAxis.__init__(bins, limits, label)\<close>.\<close>

definition HistogramAxis_init ::
  "heap \<Rightarrow> bins_arg \<Rightarrow> real list option \<Rightarrow> pyval option \<Rightarrow> (error + HistogramAxis) \<times> heap" where
  "HistogramAxis_init h bins limits0 label0 =
     (let (lab, limits) =
            (if has_iter bins \<and> label0 = None
             then (label_setter (map_option PySeq limits0), None)
             else (label_setter label0, limits0))
      in case limits of
           Some lims \<Rightarrow>
             (case bins of
                BInt n \<Rightarrow>
                  (if length lims \<noteq> 2 then (Inl ValueError, h)
                   else if \<not> lims ! 0 < lims ! 1 then (Inl ValueError, h)
                   else (case linspace (lims ! 0) (lims ! 1) (n + 1) of
                           Inl err \<Rightarrow> (Inl err, h)
                         | Inr xs \<Rightarrow>
                             (let (v, h') = alloc h xs
                              in new_axis lab (check_edges h' (Arr v)))))
              | _ \<Rightarrow> (Inl TypeError, h))
         | None \<Rightarrow>
             (case bins of
                BAxis that \<Rightarrow>
                  (let (v, h') = alloc h (arr_vals h (edges that))
                   in new_axis (if label0 = None then label_setter (map_option PyStr (label that))
                                else label_setter label0)
                        (check_edges h' (Arr v)))
              | BInt n \<Rightarrow> new_axis lab (check_edges h (Scalar (real_of_int n)))
              | BList xs \<Rightarrow> new_axis lab (check_edges h (Seq xs))
              | BArr v \<Rightarrow>
                  (let (v', h') = alloc h (arr_vals h v)
                   in new_axis lab (check_edges h' (Arr v')))))"

abbreviation edge_list :: "heap \<Rightarrow> HistogramAxis \<Rightarrow> real list" where
  "edge_list h self \<equiv> arr_vals h (edges self)"

text \<open>\<open>__eq__\<close>: \<open>np.allclose\<close> on the edges, a \<open>ValueError\<close> caught and turned into
  \<open>False\<close>.\<close>

definition eq :: "heap \<Rightarrow> HistogramAxis \<Rightarrow> HistogramAxis \<Rightarrow> error + bool" where
  "eq h self that =
     (case allclose (edge_list h self) (edge_list h that) of
        Inl ValueError \<Rightarrow> Inr False
      | Inl err \<Rightarrow> Inl err
      | Inr b \<Rightarrow> Inr b)"

subsection \<open>Edge snapping, cutting and merging\<close>

datatype edge_result = Idx int | Both int int

definition snap_options :: "string list" where
  "snap_options = [''nearest'', ''low'', ''high'', ''both'']"

definition edge_index :: "heap \<Rightarrow> HistogramAxis \<Rightarrow> real \<Rightarrow> string \<Rightarrow> error + edge_result" where
  "edge_index h self x snap =
     (if snap \<notin> set snap_options then Inl AssertionError
      else
        let minbin = 0;
            maxbin = int (count (edges self)) - 1;
            b = bin h self x;
            lowbin = max b minbin;
            highbin = min (b + 1) maxbin
        in if snap = ''nearest'' then
             (case arr_get h (edges self) lowbin of
                Inl err \<Rightarrow> Inl err
              | Inr low \<Rightarrow>
                  (case arr_get h (edges self) highbin of
                     Inl err \<Rightarrow> Inl err
                   | Inr high \<Rightarrow>
                       (let dlow = \<bar>x - low\<bar>; dhigh = \<bar>high - x\<bar>
                        in if dlow < dhigh then Inr (Idx lowbin) else Inr (Idx highbin))))
           else if snap = ''both'' then Inr (Both lowbin highbin)
           else if snap = ''low'' then Inr (Idx lowbin)
           else Inr (Idx highbin))"

text \<open>The \<open>snap\<close> argument of \<open>cut\<close>: one keyword for both sides, or a pair.\<close>

datatype snap_arg = SnapStr string | SnapPair string string

definition cut_snap_options :: "string list" where
  "cut_snap_options = [''nearest'', ''expand'', ''low'', ''high'', ''clip'']"

text \<open>The edge index that \<open>cut\<close> computes for one side; \<open>dflt\<close> is the index used when
  the bound is \<open>None\<close>, \<open>side\<close> the keyword that \<open>clip\<close> and \<open>expand\<close> stand for. A pair
  of indices (snap \<open>both\<close>, which \<open>cut\<close> never passes) could not be used as a slice
  bound.\<close>

definition cut_index ::
  "heap \<Rightarrow> HistogramAxis \<Rightarrow> real option \<Rightarrow> string \<Rightarrow> string \<Rightarrow> int \<Rightarrow> error + int" where
  "cut_index h self bound s side dflt =
     (case bound of
        None \<Rightarrow> Inr dflt
      | Some x \<Rightarrow>
          (let eisnap = (if s \<in> {''clip'', ''expand''} then side else s)
           in case edge_index h self x eisnap of
                Inl err \<Rightarrow> Inl err
              | Inr (Idx i) \<Rightarrow> Inr i
              | Inr (Both _ _) \<Rightarrow> Inl TypeError))"

text \<open>\<open>newedges[i] = x\<close> when the bound is given and its snap is \<open>clip\<close>.\<close>

definition clip_edge ::
  "heap \<Rightarrow> ndarray \<Rightarrow> real option \<Rightarrow> string \<Rightarrow> int \<Rightarrow> (error + unit) \<times> heap" where
  "clip_edge h newedges bound s i =
     (case bound of
        None \<Rightarrow> (Inr (), h)
      | Some x \<Rightarrow> (if s = ''clip'' then arr_setitem h newedges i x else (Inr (), h)))"

text \<open>\<open>mask = np.zeros((n,), dtype=bool); mask[lo:hi] = True\<close>.\<close>

definition mask_slice :: "nat \<Rightarrow> int \<Rightarrow> int \<Rightarrow> bool list" where
  "mask_slice n lo hi = map (\<lambda>i. slice_bound n lo \<le> i \<and> i < slice_bound n hi) [0..<n]"

text \<open>\<open>cut(low, high, snap)\<close>. The result is the pair of what is returned (or raised)
  and the heap afterwards, which is the heap at the moment of the exception when one is
  raised.\<close>

definition cut_axis ::
  "heap \<Rightarrow> HistogramAxis \<Rightarrow> real option \<Rightarrow> real option \<Rightarrow> snap_arg
     \<Rightarrow> (error + HistogramAxis \<times> bool list) \<times> heap" where
  "cut_axis h self low high snap =
     (let (s0, s1) = (case snap of SnapStr s \<Rightarrow> (s, s) | SnapPair a b \<Rightarrow> (a, b))
      in if s0 \<in> set cut_snap_options \<and> s1 \<in> set cut_snap_options
         then
           case cut_index h self low s0 ''low'' 0 of
             Inl err \<Rightarrow> (Inl err, h)
           | Inr lowi \<Rightarrow>
               (case cut_index h self high s1 ''high'' (int (count (edges self)) - 1) of
                  Inl err \<Rightarrow> (Inl err, h)
                | Inr highi \<Rightarrow>
                    (let newedges = arr_slice (edges self) lowi (highi + 1)
                     in if nbins self < 0 then (Inl ValueError, h)
                        else
                          let mask = mask_slice (nat (nbins self)) lowi highi
                          in case clip_edge h newedges low s0 0 of
                               (Inl err, h1) \<Rightarrow> (Inl err, h1)
                             | (Inr _, h1) \<Rightarrow>
                                 (case clip_edge h1 newedges high s1 (- 1) of
                                    (Inl err, h2) \<Rightarrow> (Inl err, h2)
                                  | (Inr _, h2) \<Rightarrow>
                                      (case HistogramAxis_init h2 (BArr newedges) None
                                              (map_option PyStr (label self)) of
                                         (Inl err, h3) \<Rightarrow> (Inl err, h3)
                                       | (Inr ax, h3) \<Rightarrow> (Inr (ax, mask), h3)))))
         else (Inl AssertionError, h))"

text \<open>\<open>mergebins(nbins, snap, clip)\<close>, for a number \<open>n \<ge> 0\<close> of bins to merge
  (\<open>divmod\<close> by zero raises).\<close>

definition mergebins ::
  "heap \<Rightarrow> HistogramAxis \<Rightarrow> nat \<Rightarrow> string \<Rightarrow> bool \<Rightarrow> (error + HistogramAxis) \<times> heap" where
  "mergebins h self n snap clip =
     (if snap \<notin> set [''low'', ''high''] then (Inl AssertionError, h)
      else if n = 0 then (Inl ZeroDivisionError, h)
      else
        let d = nbins self div int n;
            m = nbins self mod int n;
            r = (if m = 0 then (Inr (arr_slice_step (edges self) 0 n), h)
                 else if clip then
                   (if snap = ''low'' then (Inr (arr_slice_step (edges self) 0 n), h)
                    else (Inr (arr_slice_step (edges self) m n), h))
                 else if snap = ''low'' then
                   (case arr_get h (edges self) (- 1) of
                      Inl err \<Rightarrow> (Inl err, h)
                    | Inr z \<Rightarrow>
                        (let (v, h') = alloc h (arr_vals h (arr_slice_step (edges self) 0 n) @ [z])
                         in (Inr v, h')))
                 else
                   (case arr_get h (edges self) 0 of
                      Inl err \<Rightarrow> (Inl err, h)
                    | Inr z \<Rightarrow>
                        (let (v, h') = alloc h (z # arr_vals h (arr_slice_step (edges self) m n))
                         in (Inr v, h'))))
        in case r of
             (Inl err, h') \<Rightarrow> (Inl err, h')
           | (Inr newedges, h') \<Rightarrow>
               HistogramAxis_init h' (BArr newedges) None (map_option PyStr (label self)))"

subsection \<open>A concrete axis\<close>

text \<open>The axis \<open>HistogramAxis(3, (0., 3.))\<close> with edges \<open>0, 1, 2, 3\<close>, built on the
  empty heap.\<close>

definition h0 :: heap where
  "h0 = [[0, 1, 2, 3]]"

definition a0 :: HistogramAxis where
  "a0 = \<lparr>edges = \<lparr>base = 0, start = 0, step = 1, count = 4\<rparr>, label = None\<rparr>"

text \<open>The axis \<open>HistogramAxis([0., 2., 3.])\<close> built next.\<close>

definition h1 :: heap where
  "h1 = [[0, 1, 2, 3], [0, 2, 3]]"

definition a1 :: HistogramAxis where
  "a1 = \<lparr>edges = \<lparr>base = 1, start = 0, step = 1, count = 3\<rparr>, label = None\<rparr>"

subsection \<open>The invariant of an axis\<close>

text \<open>What the constructor establishes: the edges are a view inside an allocated
  buffer and are strictly increasing.\<close>

definition axis_ok :: "heap \<Rightarrow> HistogramAxis \<Rightarrow> bool" where
  "axis_ok h self \<longleftrightarrow> arr_ok h (edges self) \<and> strictly_increasing (edge_list h self)"

section \<open>Bin lookup\<close>

lemma strictly_increasing_nth:
  "strictly_increasing e \<Longrightarrow> Suc i < length e \<Longrightarrow> e ! i < e ! Suc i"
proof -
  assume si: "strictly_increasing e" and i: "Suc i < length e"
  have "i < length (zip e (drop 1 e))" using i by simp
  moreover have "zip e (drop 1 e) ! i = (e ! i, e ! Suc i)" using i by simp
  ultimately have "(e ! i, e ! Suc i) \<in> set (zip e (drop 1 e))"
    by (metis nth_mem)
  with si show ?thesis
    by (auto simp: strictly_increasing_def list_all_iff)
qed

lemma strictly_increasing_mono:
  assumes "strictly_increasing e" and "j < length e"
  shows "i < j \<Longrightarrow> e ! i < e ! j"
  using assms(2)
proof (induction j)
  case 0
  then show ?case by simp
next
  case (Suc j)
  have step: "e ! j < e ! Suc j"
    using strictly_increasing_nth [OF assms(1)] Suc.prems by simp
  show ?case
  proof (cases "i = j")
    case True
    with step show ?thesis by simp
  next
    case False
    with Suc have "e ! i < e ! j" by simp
    with step show ?thesis by simp
  qed
qed

lemma strictly_increasing_le:
  "strictly_increasing e \<Longrightarrow> j < length e \<Longrightarrow> i \<le> j \<Longrightarrow> e ! i \<le> e ! j"
  using strictly_increasing_mono [of e j i] by (cases "i = j") auto

text \<open>On increasing edges the binary search returns the number of edges that are at
  most the key: every edge before the result is \<open>\<le> key\<close>, every edge from it on is
  \<open>> key\<close>.\<close>

lemma bsearch_right_spec:
  "strictly_increasing a \<Longrightarrow> lo \<le> hi \<Longrightarrow> hi \<le> length a \<Longrightarrow>
      (\<forall>i < lo. a ! i \<le> key) \<Longrightarrow> (\<forall>i. hi \<le> i \<and> i < length a \<longrightarrow> key < a ! i) \<Longrightarrow>
      lo \<le> bsearch_right a key lo hi \<and> bsearch_right a key lo hi \<le> hi \<and>
      (\<forall>i < bsearch_right a key lo hi. a ! i \<le> key) \<and>
      (\<forall>i. bsearch_right a key lo hi \<le> i \<and> i < length a \<longrightarrow> key < a ! i)"
proof (induction a key lo hi rule: bsearch_right.induct)
  case (1 a key lo hi)
  note si = "1.prems"(1)
  show ?case
  proof (cases "lo < hi")
    case False
    then have "bsearch_right a key lo hi = lo"
      by (subst bsearch_right.simps) simp
    with False "1.prems" show ?thesis by simp
  next
    case True
    define mid where "mid = lo + (hi - lo) div 2"
    have mid: "lo \<le> mid" "mid < hi" using True by (auto simp: mid_def)
    show ?thesis
    proof (cases "a ! mid \<le> key")
      case le: True
      have below: "\<forall>i < mid + 1. a ! i \<le> key"
      proof (intro allI impI)
        fix i assume "i < mid + 1"
        moreover have "mid < length a" using mid "1.prems"(3) by simp
        ultimately have "a ! i \<le> a ! mid"
          using strictly_increasing_le [OF si, of mid i] by simp
        with le show "a ! i \<le> key" by simp
      qed
      have eq: "bsearch_right a key lo hi = bsearch_right a key (mid + 1) hi"
        using True le by (subst bsearch_right.simps) (simp add: mid_def Let_def)
      have "mid + 1 \<le> bsearch_right a key (mid + 1) hi \<and>
            bsearch_right a key (mid + 1) hi \<le> hi \<and>
            (\<forall>i < bsearch_right a key (mid + 1) hi. a ! i \<le> key) \<and>
            (\<forall>i. bsearch_right a key (mid + 1) hi \<le> i \<and> i < length a \<longrightarrow> key < a ! i)"
        using "1.IH"(1) [OF True mid_def le] mid "1.prems" below by simp
      with eq mid show ?thesis by simp
    next
      case gt: False
      have above: "\<forall>i. mid \<le> i \<and> i < length a \<longrightarrow> key < a ! i"
      proof (intro allI impI)
        fix i assume "mid \<le> i \<and> i < length a"
        then have "a ! mid \<le> a ! i"
          using strictly_increasing_le [OF si, of i mid] by simp
        with gt show "key < a ! i" by simp
      qed
      have eq: "bsearch_right a key lo hi = bsearch_right a key lo mid"
        using True gt by (subst bsearch_right.simps) (simp add: mid_def Let_def)
      have "lo \<le> bsearch_right a key lo mid \<and>
            bsearch_right a key lo mid \<le> mid \<and>
            (\<forall>i < bsearch_right a key lo mid. a ! i \<le> key) \<and>
            (\<forall>i. bsearch_right a key lo mid \<le> i \<and> i < length a \<longrightarrow> key < a ! i)"
        using "1.IH"(2) [OF True mid_def gt] mid "1.prems" above by simp
      with eq mid show ?thesis by simp
    qed
  qed
qed

lemma searchsorted_right_spec:
  assumes "strictly_increasing a"
  shows "searchsorted_right a key \<le> length a"
    and "i < searchsorted_right a key \<Longrightarrow> a ! i \<le> key"
    and "searchsorted_right a key \<le> i \<Longrightarrow> i < length a \<Longrightarrow> key < a ! i"
  using bsearch_right_spec [OF assms, of 0 "length a" key]
  by (simp_all add: searchsorted_right_def)

lemma length_arr_vals [simp]: "length (arr_vals h v) = count v"
  by (simp add: arr_vals_def)


lemma bin_unique:
  assumes si: "strictly_increasing (edge_list h self)"
    and i: "int i < nbins self"
    and lo: "edge_list h self ! i \<le> y" and hi: "y < edge_list h self ! (i + 1)"
  shows "bin h self y = int i"
proof -
  note ss = searchsorted_right_spec [OF si]
  have i': "i + 1 < length (edge_list h self)" using i by (simp add: nbins_def)
  have "\<not> searchsorted_right (edge_list h self) y \<le> i"
  proof
    assume "searchsorted_right (edge_list h self) y \<le> i"
    then have "y < edge_list h self ! i" using ss(3) [of y i] i' by simp
    with lo show False by simp
  qed
  moreover have "\<not> i + 1 < searchsorted_right (edge_list h self) y"
  proof
    assume "i + 1 < searchsorted_right (edge_list h self) y"
    then have "edge_list h self ! (i + 1) \<le> y" by (rule ss(2))
    with hi show False by simp
  qed
  ultimately have "searchsorted_right (edge_list h self) y = i + 1" by simp
  then show ?thesis by (simp add: bin_def)
qed

lemma bin_at_edge:
  assumes si: "strictly_increasing (edge_list h self)" and i: "int i < nbins self"
  shows "bin h self (edge_list h self ! i) = int i"
proof -
  have "Suc i < length (edge_list h self)" using i by (simp add: nbins_def)
  then have "edge_list h self ! i < edge_list h self ! (i + 1)"
    using strictly_increasing_nth [OF si, of i] by simp
  then show ?thesis using bin_unique [OF si i, of "edge_list h self ! i"] by simp
qed

lemma bin_under:
  assumes si: "strictly_increasing (edge_list h self)"
    and under: "x < edge_list h self ! 0"
  shows "bin h self x = - 1"
proof -
  have "searchsorted_right (edge_list h self) x = 0"
  proof (rule ccontr)
    assume "searchsorted_right (edge_list h self) x \<noteq> 0"
    then have "edge_list h self ! 0 \<le> x"
      using searchsorted_right_spec(2) [OF si, of 0 x] by simp
    with under show False by simp
  qed
  then show ?thesis by (simp add: bin_def)
qed

lemma bin_over:
  assumes si: "strictly_increasing (edge_list h self)"
    and ne: "edge_list h self \<noteq> []"
    and over: "last (edge_list h self) \<le> x"
  shows "bin h self x = nbins self"
proof -
  define e where "e = edge_list h self"
  have si': "strictly_increasing e" using si by (simp add: e_def)
  have pos: "0 < length e" using ne unfolding e_def by (metis length_greater_0_conv)
  have last_e: "last e = e ! (length e - 1)" using pos by (simp add: last_conv_nth)
  define r where "r = searchsorted_right e x"
  have r_le: "r \<le> length e" using searchsorted_right_spec(1) [OF si', of x] by (simp add: r_def)
  have "r = length e"
  proof (rule ccontr)
    assume "r \<noteq> length e"
    then have r1: "r < length e" using r_le by simp
    then have "x < e ! r" using searchsorted_right_spec(3) [OF si', of x r] by (simp add: r_def)
    moreover have "e ! r \<le> e ! (length e - 1)"
      using strictly_increasing_le [OF si', of "length e - 1" r] r1 by simp
    ultimately show False using over last_e by (simp add: e_def)
  qed
  then show ?thesis by (simp add: bin_def nbins_def r_def e_def)
qed

lemma bin_inside:
  assumes si: "strictly_increasing (edge_list h self)"
    and ne: "edge_list h self \<noteq> []"
    and lo: "edge_list h self ! 0 \<le> x" and hi: "x < last (edge_list h self)"
  shows "0 \<le> bin h self x" and "bin h self x < nbins self"
    and "edge_list h self ! nat (bin h self x) \<le> x"
    and "x < edge_list h self ! (nat (bin h self x) + 1)"
proof -
  define e where "e = edge_list h self"
  have si': "strictly_increasing e" using si by (simp add: e_def)
  have len: "length e = count (edges self)" by (simp add: e_def)
  have pos: "0 < length e" using ne unfolding e_def by (metis length_greater_0_conv)
  have last_e: "last e = e ! (length e - 1)" using pos by (simp add: last_conv_nth)
  note ss = searchsorted_right_spec [OF si']
  define r where "r = searchsorted_right e x"
  have r_le: "r \<le> length e" using ss(1) [of x] by (simp add: r_def)
  have below: "e ! i \<le> x" if "i < r" for i
    using ss(2) [of i x] that by (simp add: r_def)
  have above: "x < e ! i" if "r \<le> i" "i < length e" for i
    using ss(3) [of x i] that by (simp add: r_def)
  have br: "bin h self x = int r - 1" by (simp add: bin_def r_def e_def)
  have r0: "0 < r"
  proof (rule ccontr)
    assume "\<not> 0 < r"
    then have "x < e ! 0" using above [of 0] pos by simp
    with lo show False by (simp add: e_def)
  qed
  have r1: "r < length e"
  proof (rule ccontr)
    assume "\<not> r < length e"
    then have "r = length e" using r_le by simp
    then have "e ! (length e - 1) \<le> x" using below [of "length e - 1"] pos by simp
    with hi last_e show False by (simp add: e_def)
  qed
  have n: "nat (int r - 1) = r - 1" by simp
  have "e ! (r - 1) \<le> x" using below [of "r - 1"] r0 by simp
  then show "edge_list h self ! nat (bin h self x) \<le> x" unfolding br n e_def .
  have "x < e ! (r - 1 + 1)" using above [of r] r0 r1 by simp
  then show "x < edge_list h self ! (nat (bin h self x) + 1)" unfolding br n e_def .
  show "0 \<le> bin h self x" using r0 by (simp add: br)
  show "bin h self x < nbins self" using r1 by (simp add: br nbins_def len)
qed

text \<open>
  Claim C1. On an axis with strictly increasing edges, \<open>bin(x)\<close> is the unique index
  \<open>i\<close> with \<open>edges[i] \<le> x < edges[i+1]\<close> whenever \<open>edges[0] \<le> x < edges[-1]\<close>; in
  particular \<open>bin(edges[i]) = i\<close> for every bin \<open>i\<close>; \<open>bin(x)\<close> is negative when
  \<open>x < edges[0]\<close>, and it is \<open>nbins\<close> when \<open>x \<ge> edges[-1]\<close>.
\<close>

theorem bin_half_open:
  assumes si: "strictly_increasing (edge_list h self)"
    and ne: "edge_list h self \<noteq> []"
  shows "(edge_list h self ! 0 \<le> x \<and> x < last (edge_list h self) \<longrightarrow>
            0 \<le> bin h self x \<and> bin h self x < nbins self \<and>
            edge_list h self ! nat (bin h self x) \<le> x \<and>
            x < edge_list h self ! (nat (bin h self x) + 1)) \<and>
         (\<forall>i. int i < nbins self \<and> edge_list h self ! i \<le> x \<and> x < edge_list h self ! (i + 1)
            \<longrightarrow> bin h self x = int i) \<and>
         (\<forall>i. int i < nbins self \<longrightarrow> bin h self (edge_list h self ! i) = int i) \<and>
         (x < edge_list h self ! 0 \<longrightarrow> bin h self x < 0) \<and>
         (last (edge_list h self) \<le> x \<longrightarrow> bin h self x = nbins self)"
  using bin_inside [OF si ne, of x] bin_unique [OF si, of _ x] bin_at_edge [OF si]
    bin_under [OF si, of x] bin_over [OF si ne, of x]
  by auto

text \<open>The theorem at the axis with edges \<open>0, 1, 2, 3\<close>.\<close>

theorem bin_half_open_witness:
  "strictly_increasing (edge_list h0 a0) \<and> edge_list h0 a0 \<noteq> [] \<and>
   edge_list h0 a0 ! 0 \<le> 3 / 2 \<and> 3 / 2 < last (edge_list h0 a0) \<and>
   bin h0 a0 (3 / 2) = 1 \<and> bin h0 a0 (edge_list h0 a0 ! 2) = 2 \<and>
   bin h0 a0 (- 1) < 0 \<and> bin h0 a0 3 = nbins a0"
proof -
  have vals: "edge_list h0 a0 = [0, 1, 2, 3]"
    by (simp add: arr_vals_def h0_def a0_def upt_rec)
  have si: "strictly_increasing (edge_list h0 a0)"
    by (simp add: vals strictly_increasing_def)
  have ne: "edge_list h0 a0 \<noteq> []" by (simp add: vals)
  have nb: "nbins a0 = 3" by (simp add: nbins_def a0_def)
  note t = bin_half_open [OF si ne]
  have "bin h0 a0 (3 / 2) = int 1"
    using t [of "3 / 2", THEN conjunct2, THEN conjunct1, THEN spec, of 1]
    by (simp add: vals nb)
  moreover have "bin h0 a0 (edge_list h0 a0 ! 2) = int 2"
    using t [of 0, THEN conjunct2, THEN conjunct2, THEN conjunct1, THEN spec, of 2]
    by (simp add: nb)
  moreover have "bin h0 a0 (- 1) < 0"
    using t [of "- 1", THEN conjunct2, THEN conjunct2, THEN conjunct2, THEN conjunct1]
    by (simp add: vals)
  moreover have "bin h0 a0 3 = nbins a0"
    using t [of 3, THEN conjunct2, THEN conjunct2, THEN conjunct2, THEN conjunct2]
    by (simp add: vals)
  ultimately show ?thesis using si ne by (simp add: vals)
qed

section \<open>Arrays on the heap\<close>

lemma arr_vals_alloc: "arr_vals (snd (alloc h xs)) (fst (alloc h xs)) = xs"
  by (simp add: alloc_def arr_vals_def map_nth)

lemma arr_vals_append: "base v < length h \<Longrightarrow> arr_vals (h @ ext) v = arr_vals h v"
  by (simp add: arr_vals_def nth_append)


lemma strictly_increasing_short: "length xs < 2 \<Longrightarrow> strictly_increasing xs"
  by (cases xs) (auto simp: strictly_increasing_def)

text \<open>The example axis is what the constructor returns on the empty heap.\<close>

lemma a0_constructed: "HistogramAxis_init [] (BInt 3) (Some [0, 3]) None = (Inr a0, h0)"
  by code_simp

lemma a1_constructed: "HistogramAxis_init h0 (BList [0, 2, 3]) None None = (Inr a1, h1)"
  by code_simp

lemma alloc_ok: "arr_ok (snd (alloc h xs)) (fst (alloc h xs))"
  by (cases xs) (simp_all add: alloc_def arr_ok_def)

lemma check_edges_alloc_ok:
  assumes "check_edges (snd (alloc h xs)) (Arr (fst (alloc h xs))) = (Inr v, h')"
  shows "arr_ok h' v \<and> strictly_increasing (arr_vals h' v)"
  using assms alloc_ok [of h xs]
  by (auto simp: check_edges_def split: if_splits)

lemma check_edges_seq_ok:
  assumes "check_edges h (Seq xs) = (Inr v, h')"
  shows "arr_ok h' v \<and> strictly_increasing (arr_vals h' v)"
  using assms alloc_ok [of h xs]
  by (auto simp: check_edges_def split_beta split: if_splits)

lemma new_axis_ok:
  assumes "new_axis lab r = (Inr ax, h')"
    and "\<And>v. r = (Inr v, h') \<Longrightarrow> arr_ok h' v \<and> strictly_increasing (arr_vals h' v)"
  shows "axis_ok h' ax"
  using assms by (cases r) (auto simp: new_axis_def axis_ok_def split: sum.splits)

text \<open>Every axis that the constructor returns satisfies the invariant.\<close>

lemma init_establishes_invariant:
  assumes "HistogramAxis_init h bins limits lab = (Inr ax, h')"
  shows "axis_ok h' ax"
proof (cases bins)
  case (BInt n)
  show ?thesis
  proof (cases limits)
    case None
    with BInt assms show ?thesis
      by (simp add: HistogramAxis_init_def has_iter_def new_axis_def check_edges_def)
  next
    case (Some lims)
    with BInt assms obtain xs where
      "new_axis (label_setter lab) (check_edges (snd (alloc h xs)) (Arr (fst (alloc h xs))))
         = (Inr ax, h')"
      by (auto simp: HistogramAxis_init_def has_iter_def split_beta
          split: if_splits sum.splits)
    then show ?thesis
      by (rule new_axis_ok) (rule check_edges_alloc_ok)
  qed
next
  case (BList xs)
  with assms obtain l where "new_axis l (check_edges h (Seq xs)) = (Inr ax, h')"
    by (cases limits; cases "lab = None")
       (auto simp: HistogramAxis_init_def has_iter_def split: if_splits)
  then show ?thesis
    by (rule new_axis_ok) (rule check_edges_seq_ok)
next
  case (BArr v)
  with assms obtain l where
    "new_axis l (check_edges (snd (alloc h (arr_vals h v))) (Arr (fst (alloc h (arr_vals h v)))))
       = (Inr ax, h')"
    by (cases limits; cases "lab = None")
       (auto simp: HistogramAxis_init_def has_iter_def split_beta split: if_splits)
  then show ?thesis
    by (rule new_axis_ok) (rule check_edges_alloc_ok)
next
  case (BAxis that)
  with assms obtain l where
    "new_axis l (check_edges (snd (alloc h (edge_list h that)))
                   (Arr (fst (alloc h (edge_list h that))))) = (Inr ax, h')"
    by (cases limits)
       (auto simp: HistogramAxis_init_def has_iter_def split_beta split: if_splits)
  then show ?thesis
    by (rule new_axis_ok) (rule check_edges_alloc_ok)
qed

section \<open>Edge snapping\<close>




section \<open>The edges setter and the constructor\<close>

text \<open>
  Claim C8 as stated: assigning a sequence with fewer than 2 points to \<open>edges\<close> raises
  \<open>ValueError\<close>. The sequences \<open>[5.]\<close> and \<open>[]\<close> are assigned without an error.
\<close>

theorem edges_setter_short_counterexample:
  "length [5 :: real] < 2 \<and>
   fst (edges_setter h0 a0 (Seq [5])) =
     Inr (a0\<lparr>edges := \<lparr>base = 1, start = 0, step = 1, count = 1\<rparr>\<rparr>) \<and>
   length ([] :: real list) < 2 \<and>
   fst (edges_setter h0 a0 (Seq [])) =
     Inr (a0\<lparr>edges := \<lparr>base = 1, start = 0, step = 1, count = 0\<rparr>\<rparr>)"
  by code_simp

text \<open>
  Claim C8, amended. Assigning a one-dimensional sequence (a list or an array) to
  \<open>edges\<close> raises \<open>ValueError\<close> exactly when the sequence is not strictly increasing;
  a strictly increasing sequence is stored with its values, and every sequence with
  fewer than 2 points counts as strictly increasing.
\<close>

theorem edges_setter_validation:
  "(fst (edges_setter h self (Seq xs)) = Inl ValueError \<longleftrightarrow> \<not> strictly_increasing xs) \<and>
   (strictly_increasing xs \<longrightarrow>
      (\<exists>v h'. edges_setter h self (Seq xs) = (Inr (self\<lparr>edges := v\<rparr>), h') \<and>
               arr_vals h' v = xs)) \<and>
   (fst (edges_setter h self (Arr a)) = Inl ValueError \<longleftrightarrow> \<not> strictly_increasing (arr_vals h a)) \<and>
   (strictly_increasing (arr_vals h a) \<longrightarrow>
      edges_setter h self (Arr a) = (Inr (self\<lparr>edges := a\<rparr>), h)) \<and>
   (length xs < 2 \<longrightarrow> strictly_increasing xs)"
proof -
  have v: "arr_vals (snd (alloc h xs)) (fst (alloc h xs)) = xs" by (rule arr_vals_alloc)
  have "fst (edges_setter h self (Seq xs)) = Inl ValueError \<longleftrightarrow> \<not> strictly_increasing xs"
    using v by (simp add: edges_setter_def check_edges_def split_beta)
  moreover have "\<exists>v h'. edges_setter h self (Seq xs) = (Inr (self\<lparr>edges := v\<rparr>), h') \<and>
               arr_vals h' v = xs" if "strictly_increasing xs"
  proof -
    have "edges_setter h self (Seq xs)
            = (Inr (self\<lparr>edges := fst (alloc h xs)\<rparr>), snd (alloc h xs))"
      using v that by (simp add: edges_setter_def check_edges_def split_beta)
    with v show ?thesis by blast
  qed
  moreover have "fst (edges_setter h self (Arr a)) = Inl ValueError
                   \<longleftrightarrow> \<not> strictly_increasing (arr_vals h a)"
    by (simp add: edges_setter_def check_edges_def)
  moreover have "edges_setter h self (Arr a) = (Inr (self\<lparr>edges := a\<rparr>), h)"
    if "strictly_increasing (arr_vals h a)"
    using that by (simp add: edges_setter_def check_edges_def)
  ultimately show ?thesis using strictly_increasing_short [of xs] by blast
qed

text \<open>The theorem at the sequences \<open>0, 2, 3\<close>, \<open>0, 2, 2\<close> and \<open>5\<close>.\<close>

theorem edges_setter_validation_witness:
  "strictly_increasing [0, 2, 3] \<and> fst (edges_setter h0 a0 (Seq [0, 2, 3])) \<noteq> Inl ValueError \<and>
   \<not> strictly_increasing [0, 2, 2] \<and> fst (edges_setter h0 a0 (Seq [0, 2, 2])) = Inl ValueError \<and>
   length [5 :: real] < 2 \<and> strictly_increasing [5]"
proof -
  have a: "strictly_increasing [0, 2, 3]" by code_simp
  have b: "\<not> strictly_increasing [0, 2, 2]" by code_simp
  show ?thesis
    using edges_setter_validation [of h0 a0 "[0, 2, 3]"]
      edges_setter_validation [of h0 a0 "[0, 2, 2]"]
      edges_setter_validation [of h0 a0 "[5]"] a b
    by simp
qed

text \<open>
  Claim C9 as stated: \<open>HistogramAxis(100)\<close>, an integer bin count with no range
  limits, raises a type error. It raises, but not a \<open>TypeError\<close>.
\<close>

theorem init_count_without_limits_counterexample:
  "fst (HistogramAxis_init [] (BInt 100) None None) \<noteq> Inl TypeError"
  by code_simp

text \<open>
  Claim C9, amended. Constructing an axis from an integer bin count with no range
  limits raises \<open>AssertionError\<close>: the number reaches the \<open>edges\<close> setter, where the
  assertion that the edges are one-dimensional fails.
\<close>

theorem init_count_without_limits:
  "fst (HistogramAxis_init h (BInt n) None lab) = Inl AssertionError"
  by (simp add: HistogramAxis_init_def has_iter_def new_axis_def check_edges_def)

section \<open>Equality\<close>

text \<open>
  Claim C10. The comparison of two axes always returns a boolean and never raises;
  when the two edge arrays do not broadcast against each other (different lengths,
  neither of them 1), where \<open>np.allclose\<close> raises \<open>ValueError\<close>, it returns \<open>False\<close>.
\<close>

theorem eq_total:
  "(\<exists>b. eq h self that = Inr b) \<and>
   (broadcast (count (edges self)) (count (edges that)) = None \<longrightarrow> eq h self that = Inr False)"
  by (auto simp: eq_def allclose_def split: option.splits sum.splits error.splits)

text \<open>The theorem at the axes with edges \<open>0, 1, 2, 3\<close> and \<open>0, 2, 3\<close>.\<close>

theorem eq_total_witness:
  "broadcast (count (edges a0)) (count (edges a1)) = None \<and> eq h1 a0 a1 = Inr False"
  using eq_total [of h1 a0 a1] by (simp add: broadcast_def a0_def a1_def)

section \<open>Cutting\<close>

text \<open>
  Claim C3: \<open>cut\<close> leaves the edges of the receiver unchanged, also when \<open>snap\<close> is
  \<open>clip\<close>. The code does not: the new edges are a slice, hence a view, of the
  receiver's array, and \<open>clip\<close> stores the requested bounds through it. After
  \<open>cut(0.5, 2.5, 'clip')\<close> on the axis with edges \<open>0, 1, 2, 3\<close> the receiver's edges are
  \<open>0.5, 1, 2, 2.5\<close>.
\<close>

theorem cut_clip_mutates_receiver:
  "edge_list h0 a0 = [0, 1, 2, 3] \<and>
   edge_list (snd (cut_axis h0 a0 (Some (1 / 2)) (Some (5 / 2)) (SnapStr ''clip''))) a0
     = [1 / 2, 1, 2, 5 / 2]"
  by code_simp

text \<open>
  Claim C4: for \<open>low < high\<close> strictly inside the axis, \<open>cut(low, high, 'clip')\<close>
  returns an axis from \<open>low\<close> to \<open>high\<close>. When \<open>high\<close> is an inner edge the code
  raises instead: the high side resolves to the edge after \<open>high\<close>, the overwrite makes
  the last two edges equal, and the constructor rejects them. On the axis with edges
  \<open>0, 1, 2, 3\<close>, \<open>cut(0.5, 2, 'clip')\<close> raises \<open>ValueError\<close>.
\<close>

theorem cut_clip_high_on_edge:
  "edge_list h0 a0 ! 0 < 1 / 2 \<and> (1 / 2 :: real) < 2 \<and> 2 < last (edge_list h0 a0) \<and>
   fst (cut_axis h0 a0 (Some (1 / 2)) (Some 2) (SnapStr ''clip'')) = Inl ValueError"
  by code_simp

lemma strictly_increasingI:
  assumes "\<And>i. Suc i < length xs \<Longrightarrow> xs ! i < xs ! Suc i"
  shows "strictly_increasing xs"
proof -
  have "x < y" if "(x, y) \<in> set (zip xs (drop 1 xs))" for x y
  proof -
    from that obtain i where i: "i < length (zip xs (drop 1 xs))"
      and xy: "zip xs (drop 1 xs) ! i = (x, y)"
      by (auto simp: in_set_conv_nth)
    from i have "Suc i < length xs" by simp
    moreover from i xy have "x = xs ! i" "y = xs ! Suc i" by auto
    ultimately show ?thesis using assms by simp
  qed
  then show ?thesis by (auto simp: strictly_increasing_def list_all_iff)
qed

lemma init_BArr:
  "HistogramAxis_init h (BArr v) None l =
     (if strictly_increasing (arr_vals h v)
      then (Inr \<lparr>edges = \<lparr>base = length h, start = 0, step = 1, count = count v\<rparr>,
                 label = label_setter l\<rparr>, h @ [arr_vals h v])
      else (Inl ValueError, h @ [arr_vals h v]))"
proof -
  have v: "arr_vals (h @ [arr_vals h v])
             \<lparr>base = length h, start = 0, step = 1, count = count v\<rparr> = arr_vals h v"
    using arr_vals_alloc [of h "arr_vals h v"] by (simp add: alloc_def)
  have l: "(if l = None then label_setter (map_option PySeq None) else label_setter l)
             = label_setter l"
    by (simp add: label_setter_def)
  show ?thesis
    using v l
    by (cases "l = None")
       (simp_all add: HistogramAxis_init_def has_iter_def alloc_def check_edges_def
          new_axis_def label_setter_def)
qed

lemma mask_slice_all: "mask_slice n 0 (int n) = replicate n True"
  by (rule nth_equalityI) (simp_all add: mask_slice_def slice_bound_def)

lemma arr_slice_all: "arr_slice v 0 (int (count v)) = v"
  by (simp add: arr_slice_def slice_bound_def)

text \<open>
  Claim C5 as stated: for every axis, \<open>cut(None, None)\<close> returns an axis with the same
  edges and a mask that is \<open>True\<close> for every bin. The constructor accepts an empty
  list of edges; that axis has \<open>nbins = -1\<close>, and \<open>cut(None, None)\<close> raises
  \<open>ValueError\<close> on it, when it asks \<open>np.zeros\<close> for a mask of negative length.
\<close>

theorem cut_none_empty_counterexample:
  "HistogramAxis_init [] (BList []) None None
     = (Inr \<lparr>edges = \<lparr>base = 0, start = 0, step = 1, count = 0\<rparr>, label = None\<rparr>, [[]]) \<and>
   fst (cut_axis [[]] \<lparr>edges = \<lparr>base = 0, start = 0, step = 1, count = 0\<rparr>, label = None\<rparr>
          None None (SnapStr ''nearest'')) = Inl ValueError"
  by code_simp

text \<open>
  Claim C5, amended. On an axis with at least one edge (strictly increasing edges in
  an allocated array), \<open>cut(None, None)\<close> with any admitted snap returns an axis whose
  edges are the receiver's edges, and a mask that is \<open>True\<close> for every bin; the
  receiver's edges are unchanged.
\<close>

theorem cut_none_identity:
  assumes ok: "axis_ok h self" and ne: "edge_list h self \<noteq> []"
    and snap: "case snap of SnapStr s \<Rightarrow> s \<in> set cut_snap_options
               | SnapPair s0 s1 \<Rightarrow> s0 \<in> set cut_snap_options \<and> s1 \<in> set cut_snap_options"
  shows "\<exists>ax h'. cut_axis h self None None snap
                    = (Inr (ax, replicate (nat (nbins self)) True), h') \<and>
                  edge_list h' ax = edge_list h self \<and>
                  edge_list h' self = edge_list h self"
proof -
  have si: "strictly_increasing (edge_list h self)" and b: "base (edges self) < length h"
    using ok by (simp_all add: axis_ok_def arr_ok_def)
  have pos: "0 < count (edges self)"
    using ne by (metis length_arr_vals length_greater_0_conv)
  then have nb: "\<not> nbins self < 0" and nn: "int (nat (nbins self)) = int (count (edges self)) - 1"
    by (simp_all add: nbins_def)
  define ax where "ax = \<lparr>edges = \<lparr>base = length h, start = 0, step = 1, count = count (edges self)\<rparr>,
                 label = label_setter (map_option PyStr (label self))\<rparr>"
  define h' where "h' = h @ [edge_list h self]"
  have m: "mask_slice (nat (nbins self)) 0 (int (count (edges self)) - 1)
             = replicate (nat (nbins self)) True"
    using mask_slice_all [of "nat (nbins self)"] unfolding nn .
  have "cut_axis h self None None snap = (Inr (ax, replicate (nat (nbins self)) True), h')"
    using snap si nb
    by (cases snap)
       (simp_all add: cut_axis_def cut_index_def clip_edge_def arr_slice_all init_BArr m
          ax_def h'_def Let_def)
  moreover have "edge_list h' ax = edge_list h self"
    using arr_vals_alloc [of h "edge_list h self"] by (simp add: alloc_def ax_def h'_def)
  moreover have "edge_list h' self = edge_list h self"
    unfolding h'_def using b by (rule arr_vals_append)
  ultimately show ?thesis by blast
qed

text \<open>The theorem at the axis with edges \<open>0, 1, 2, 3\<close>.\<close>

theorem cut_none_identity_witness:
  "axis_ok h0 a0 \<and> edge_list h0 a0 \<noteq> [] \<and> ''nearest'' \<in> set cut_snap_options \<and>
   (\<exists>ax h'. cut_axis h0 a0 None None (SnapStr ''nearest'') = (Inr (ax, [True, True, True]), h') \<and>
             edge_list h' ax = [0, 1, 2, 3] \<and> edge_list h' a0 = [0, 1, 2, 3])"
proof -
  have ok: "axis_ok h0 a0" by code_simp
  have vals: "edge_list h0 a0 = [0, 1, 2, 3]" by code_simp
  have ne: "edge_list h0 a0 \<noteq> []" by (simp add: vals)
  have s: "''nearest'' \<in> set cut_snap_options" by (simp add: cut_snap_options_def)
  have nb: "replicate (nat (nbins a0)) True = [True, True, True]" by code_simp
  show ?thesis
    using cut_none_identity [OF ok ne, of "SnapStr ''nearest''"] ok ne s
    by (simp add: vals nb)
qed

section \<open>Merging bins\<close>

lemma arr_vals_nth:
  "i < count v \<Longrightarrow> arr_vals h v ! i = h ! base v ! (start v + i * step v)"
  by (simp add: arr_vals_def)

lemma arr_vals_slice_step:
  assumes n: "0 < n" and c: "count v = k * n + 1"
  shows "arr_vals h (arr_slice_step v 0 n) = map (\<lambda>i. arr_vals h v ! (i * n)) [0..<k + 1]"
proof -
  have cnt: "count (arr_slice_step v 0 n) = k + 1"
    using n c by (simp add: arr_slice_step_def slice_bound_def)
  show ?thesis
  proof (rule nth_equalityI)
    show "length (arr_vals h (arr_slice_step v 0 n))
            = length (map (\<lambda>i. arr_vals h v ! (i * n)) [0..<k + 1])"
      using cnt by simp
  next
    fix i assume "i < length (arr_vals h (arr_slice_step v 0 n))"
    then have i: "i < k + 1" using cnt by simp
    then have "i \<le> k" by simp
    then have "i * n \<le> k * n" by (rule mult_le_mono1)
    then have "i * n < count v" using c by linarith
    then have "arr_vals h v ! (i * n) = h ! base v ! (start v + i * n * step v)"
      by (rule arr_vals_nth)
    moreover have "arr_vals h (arr_slice_step v 0 n) ! i
                     = h ! base v ! (start v + i * (step v * n))"
      using arr_vals_nth [of i "arr_slice_step v 0 n" h] i cnt
      by (simp add: arr_slice_step_def slice_bound_def)
    moreover have "i * (step v * n) = i * n * step v" by (simp add: mult.commute mult.left_commute)
    moreover have "map (\<lambda>i. arr_vals h v ! (i * n)) [0..<k + 1] ! i = arr_vals h v ! (i * n)"
      using i by (simp only: nth_map_upt) simp
    ultimately show "arr_vals h (arr_slice_step v 0 n) ! i
                       = map (\<lambda>i. arr_vals h v ! (i * n)) [0..<k + 1] ! i"
      by simp
  qed
qed

lemma strictly_increasing_every_nth:
  assumes si: "strictly_increasing e" and n: "0 < n" and len: "length e = k * n + 1"
  shows "strictly_increasing (map (\<lambda>i. e ! (i * n)) [0..<k + 1])"
proof (rule strictly_increasingI)
  fix i assume "Suc i < length (map (\<lambda>i. e ! (i * n)) [0..<k + 1])"
  then have i: "Suc i < k + 1" by simp
  then have "Suc i * n \<le> k * n" by (simp only: mult_le_mono1 Suc_le_eq less_Suc_eq_le Suc_eq_plus1)
  then have "Suc i * n < length e" using len by linarith
  moreover have "i * n < Suc i * n" using n by simp
  ultimately have "e ! (i * n) < e ! (Suc i * n)"
    using strictly_increasing_mono [OF si] by blast
  moreover have "map (\<lambda>i. e ! (i * n)) [0..<k + 1] ! i = e ! (i * n)"
    using i by (simp only: nth_map_upt) simp
  moreover have "map (\<lambda>i. e ! (i * n)) [0..<k + 1] ! Suc i = e ! (Suc i * n)"
    using i by (simp only: nth_map_upt) simp
  ultimately show "map (\<lambda>i. e ! (i * n)) [0..<k + 1] ! i
                     < map (\<lambda>i. e ! (i * n)) [0..<k + 1] ! Suc i"
    by simp
qed

text \<open>
  Claim C6. On an axis whose bin count is a multiple of \<open>n \<ge> 1\<close>,
  \<open>mergebins(n, snap, clip)\<close> returns, for both values of \<open>snap\<close> and of \<open>clip\<close>,
  an axis whose edges are the original edges at the indices \<open>0, n, 2n, ..., nbins\<close>
  and whose bin count is \<open>nbins / n\<close>.
\<close>

theorem mergebins_divisible:
  assumes ok: "axis_ok h self" and ne: "edge_list h self \<noteq> []"
    and n: "1 \<le> n" and dv: "int n dvd nbins self"
    and snap: "snap = ''low'' \<or> snap = ''high''"
  shows "\<exists>ax h'. mergebins h self n snap clip = (Inr ax, h') \<and>
           edge_list h' ax
             = map (\<lambda>k. edge_list h self ! (k * n)) [0..<nat (nbins self) div n + 1] \<and>
           nbins ax = nbins self div int n"
proof -
  have si: "strictly_increasing (edge_list h self)"
    using ok by (simp add: axis_ok_def)
  have pos: "0 < count (edges self)"
    using ne by (metis length_arr_vals length_greater_0_conv)
  define k where "k = nat (nbins self) div n"
  have n0: "0 < n" using n by simp
  have nb: "nbins self = int (count (edges self) - 1)" using pos by (simp add: nbins_def)
  have "n dvd count (edges self) - 1" using dv unfolding nb by (simp only: int_dvd_int_iff)
  then have kn: "count (edges self) - 1 = k * n"
    unfolding k_def nb by simp
  then have c: "count (edges self) = k * n + 1" using pos by simp
  have m0: "nbins self mod int n = 0" using dv by simp
  define new where "new = map (\<lambda>i. edge_list h self ! (i * n)) [0..<k + 1]"
  have vals: "arr_vals h (arr_slice_step (edges self) 0 n) = new"
    unfolding new_def using n0 c by (rule arr_vals_slice_step)
  have cnt: "count (arr_slice_step (edges self) 0 n) = k + 1"
    using arg_cong [OF vals, of length] by (simp add: new_def)
  have si_new: "strictly_increasing new"
    unfolding new_def using si n0 by (rule strictly_increasing_every_nth) (simp add: c)
  define ax where "ax = \<lparr>edges = \<lparr>base = length h, start = 0, step = 1, count = k + 1\<rparr>,
                 label = label_setter (map_option PyStr (label self))\<rparr>"
  define h' where "h' = h @ [new]"
  have "mergebins h self n snap clip = (Inr ax, h')"
    using snap n0 m0 si_new
    by (auto simp: mergebins_def Let_def init_BArr vals cnt ax_def h'_def)
  moreover have "edge_list h' ax = new"
    using arr_vals_alloc [of h new] by (simp add: alloc_def ax_def h'_def new_def)
  moreover have "nbins ax = nbins self div int n"
  proof -
    have "nbins ax = int k" by (simp add: nbins_def ax_def)
    moreover have "nbins self div int n = int k"
      unfolding nb kn using n0 by (simp only: zdiv_int [symmetric] nonzero_mult_div_cancel_right)
    ultimately show ?thesis by simp
  qed
  ultimately show ?thesis unfolding new_def k_def by blast
qed

text \<open>The theorem at the axis with edges \<open>0, 1, 2, 3\<close>, merged by 3.\<close>

theorem mergebins_divisible_witness:
  "axis_ok h0 a0 \<and> edge_list h0 a0 \<noteq> [] \<and> (1 :: nat) \<le> 3 \<and> int 3 dvd nbins a0 \<and>
   (\<exists>ax h'. mergebins h0 a0 3 ''high'' False = (Inr ax, h') \<and>
             edge_list h' ax = [0, 3] \<and> nbins ax = 1)"
proof -
  have ok: "axis_ok h0 a0" by code_simp
  have vals: "edge_list h0 a0 = [0, 1, 2, 3]" by code_simp
  have ne: "edge_list h0 a0 \<noteq> []" by (simp add: vals)
  have nb: "nbins a0 = 3" by code_simp
  have dv: "int 3 dvd nbins a0" by (simp add: nb)
  have new: "map (\<lambda>k. [0, 1, 2, 3 :: real] ! (k * 3)) [0..<nat 3 div 3 + 1] = [0, 3]"
    by code_simp
  show ?thesis
    using mergebins_divisible [OF ok ne _ dv, of "''high''" False] ok ne dv
    by (simp add: vals nb new)
qed

section \<open>Uniform construction\<close>





section \<open>Cutting with and without \<open>clip\<close>\<close>

lemma clip_edge_other [simp]: "s \<noteq> ''clip'' \<Longrightarrow> clip_edge h v bound s i = (Inr (), h)"
  by (simp add: clip_edge_def split: option.splits)

text \<open>Without \<open>clip\<close> nothing is stored through the slice: \<open>cut\<close> only allocates, and
  the receiver keeps its edges.\<close>

lemma cut_without_clip_extends:
  assumes "case snap of SnapStr s \<Rightarrow> s \<noteq> ''clip''
           | SnapPair s0 s1 \<Rightarrow> s0 \<noteq> ''clip'' \<and> s1 \<noteq> ''clip''"
  shows "\<exists>ext. snd (cut_axis h self low high snap) = h @ ext"
proof -
  have a: "\<exists>ext. snd (case HistogramAxis_init h (BArr v) None l of
                        (Inl err, h3) \<Rightarrow> (Inl err, h3)
                      | (Inr ax, h3) \<Rightarrow> (Inr (ax, m), h3)) = h @ ext" for v l and m :: "bool list"
    by (simp add: init_BArr)
  have b: "\<exists>ext. (h :: heap) = h @ ext" by simp
  show ?thesis
    using assms a b
    by (cases snap) (simp_all add: cut_axis_def Let_def split: sum.splits)
qed

lemma cut_without_clip_frame:
  assumes "case snap of SnapStr s \<Rightarrow> s \<noteq> ''clip''
           | SnapPair s0 s1 \<Rightarrow> s0 \<noteq> ''clip'' \<and> s1 \<noteq> ''clip''"
    and "base (edges self) < length h"
  shows "edge_list (snd (cut_axis h self low high snap)) self = edge_list h self"
proof -
  from cut_without_clip_extends [OF assms(1)]
  obtain ext where "snd (cut_axis h self low high snap) = h @ ext" by blast
  then show ?thesis using arr_vals_append [OF assms(2)] by simp
qed

text \<open>Two stores through the slice \<open>v[a:b+1]\<close>, at its first and at its last position.\<close>

lemma clip_both_vals:
  assumes b0: "base v < length h" and st: "0 < step v"
    and inb: "start v + (count v - 1) * step v < length (h ! base v)"
    and ab: "a < b" and bc: "b < count v"
    and w_def: "w = arr_slice v (int a) (int b + 1)"
    and ha_def: "ha = snd (arr_setitem h w 0 lo)"
    and hb_def: "hb = snd (arr_setitem ha w (- 1) hi)"
  shows "fst (arr_setitem h w 0 lo) = Inr ()"
    and "fst (arr_setitem ha w (- 1) hi) = Inr ()"
    and "count w = b - a + 1"
    and "k < b - a + 1 \<Longrightarrow>
           arr_vals hb w ! k = (if k = b - a then hi else if k = 0 then lo
                                else arr_vals h v ! (a + k))"
proof -
  define buf where "buf = h ! base v"
  define p where "p t = start v + t * step v" for t
  have w: "w = v\<lparr>start := p a, count := b - a + 1\<rparr>"
    using ab bc by (simp add: w_def arr_slice_def slice_bound_def p_def Suc_diff_le)
  show cw: "count w = b - a + 1" by (simp add: w)
  have i0: "py_index (count w) 0 = Some 0" by (simp add: py_index_def cw)
  have i1: "py_index (count w) (- 1) = Some (b - a)" by (simp add: py_index_def cw)
  show "fst (arr_setitem h w 0 lo) = Inr ()" by (simp add: arr_setitem_def i0)
  show "fst (arr_setitem ha w (- 1) hi) = Inr ()" by (simp add: arr_setitem_def i1)
  have s0: "arr_setitem h w 0 lo
              = (Inr (), h[base w := (h ! base w)[start w + 0 * step w := lo]])"
    by (simp add: arr_setitem_def i0)
  have s1: "arr_setitem ha w (- 1) hi
              = (Inr (), ha[base w := (ha ! base w)[start w + (b - a) * step w := hi]])"
    by (simp add: arr_setitem_def i1)
  have ha: "ha = h[base v := buf[p a := lo]]"
    unfolding ha_def s0 by (simp add: w buf_def)
  have pb: "p a + (b - a) * step v = p b"
    using ab by (simp add: p_def add_mult_distrib [symmetric])
  have hb: "hb = h[base v := buf[p a := lo, p b := hi]]"
    unfolding hb_def s1 using b0 by (simp add: w ha pb)
  have p_le: "p t < length buf" if "t < count v" for t
  proof -
    have "t \<le> count v - 1" using that by simp
    then have "t * step v \<le> (count v - 1) * step v" by (rule mult_le_mono1)
    then show ?thesis using inb unfolding p_def buf_def by linarith
  qed
  have p_inj: "p s = p t \<longleftrightarrow> s = t" for s t
    using st by (simp add: p_def)
  assume k: "k < b - a + 1"
  have pk: "p a + k * step v = p (a + k)" by (simp add: p_def add_mult_distrib)
  have "arr_vals hb w ! k = hb ! base v ! p (a + k)"
    using arr_vals_nth [of k w hb] k by (simp add: w pk)
  also have "\<dots> = buf[p a := lo, p b := hi] ! p (a + k)"
    using b0 by (simp add: hb)
  also have "\<dots> = (if k = b - a then hi else if k = 0 then lo else buf ! p (a + k))"
  proof -
    have "a + k = b \<longleftrightarrow> k = b - a" using ab k by auto
    moreover have "a + k = a \<longleftrightarrow> k = 0" by simp
    moreover have "p b < length buf" using p_le bc by simp
    moreover have "p a < length buf" using p_le ab bc by simp
    ultimately show ?thesis
      using ab by (auto simp: nth_list_update p_inj)
  qed
  also have "buf ! p (a + k) = arr_vals h v ! (a + k)"
  proof -
    have "a + k < count v" using k ab bc by simp
    then show ?thesis using arr_vals_nth [of "a + k" v h] by (simp add: buf_def p_def)
  qed
  finally show "arr_vals hb w ! k
      = (if k = b - a then hi else if k = 0 then lo else arr_vals h v ! (a + k))" .
qed


lemma axis_step_pos:
  assumes si: "strictly_increasing (arr_vals h v)" and c: "2 \<le> count v"
  shows "0 < step v"
proof (rule ccontr)
  assume "\<not> 0 < step v"
  then have z: "step v = 0" by simp
  have "arr_vals h v ! 0 = arr_vals h v ! 1"
    using arr_vals_nth [of 0 v h] arr_vals_nth [of 1 v h] c by (simp add: z)
  moreover have "arr_vals h v ! 0 < arr_vals h v ! Suc 0"
    using strictly_increasing_nth [OF si, of 0] c by simp
  ultimately show False by simp
qed

lemma edge_index_low:
  "edge_index h self x ''low'' = Inr (Idx (max (bin h self x) 0))"
  by (simp add: edge_index_def snap_options_def Let_def)

lemma edge_index_high:
  "edge_index h self x ''high'' = Inr (Idx (min (bin h self x + 1) (nbins self)))"
  by (simp add: edge_index_def snap_options_def Let_def nbins_def)

lemma cut_axis_clip_steps:
  assumes "cut_index h self (Some low) ''clip'' ''low'' 0 = Inr lowi"
    and "cut_index h self (Some high) ''clip'' ''high'' (int (count (edges self)) - 1) = Inr highi"
    and "\<not> nbins self < 0"
    and "w = arr_slice (edges self) lowi (highi + 1)"
    and "arr_setitem h w 0 low = (Inr (), ha)"
    and "arr_setitem ha w (- 1) high = (Inr (), hb)"
    and "strictly_increasing (arr_vals hb w)"
  shows "cut_axis h self (Some low) (Some high) (SnapStr ''clip'')
           = (Inr (\<lparr>edges = \<lparr>base = length hb, start = 0, step = 1, count = count w\<rparr>,
                    label = label_setter (map_option PyStr (label self))\<rparr>,
                   mask_slice (nat (nbins self)) lowi highi),
              hb @ [arr_vals hb w])"
  using assms
  by (simp add: cut_axis_def cut_snap_options_def Let_def clip_edge_def init_BArr)

text \<open>When \<open>high\<close> is not an edge, \<open>cut(low, high, 'clip')\<close> does return an axis from
  \<open>low\<close> to \<open>high\<close>.\<close>

lemma cut_clip_inside:
  assumes ok: "axis_ok h self" and ne: "edge_list h self \<noteq> []"
    and lo: "edge_list h self ! 0 \<le> low" and lh: "low < high"
    and hi: "high < last (edge_list h self)"
    and off: "high \<notin> set (edge_list h self)"
  shows "\<exists>ax mask h'. cut_axis h self (Some low) (Some high) (SnapStr ''clip'')
                          = (Inr (ax, mask), h') \<and>
           edge_list h' ax ! 0 = low \<and> last (edge_list h' ax) = high"
proof -
  define v where "v = edges self"
  define e where "e = edge_list h self"
  have si: "strictly_increasing (edge_list h self)" and b0: "base v < length h"
    and inb0: "count v = 0 \<or> start v + (count v - 1) * step v < length (h ! base v)"
    using ok by (simp_all add: axis_ok_def arr_ok_def v_def)
  have len: "length e = count v" by (simp add: e_def v_def)
  have lo_hi: "low < last (edge_list h self)" using lh hi by simp
  have e_lo_hi: "edge_list h self ! 0 \<le> high" using lo lh by simp
  note bl = bin_inside [OF si ne lo lo_hi]
  note bh = bin_inside [OF si ne e_lo_hi hi]
  define i where "i = nat (bin h self low)"
  define j where "j = nat (bin h self high)"
  have bi: "bin h self low = int i" and bj: "bin h self high = int j"
    using bl(1) bh(1) by (simp_all add: i_def j_def)
  have i_lt: "i + 1 < count v" and j_lt: "j + 1 < count v"
    using bl(2) bh(2) by (simp_all add: bi bj nbins_def v_def)
  have ei: "e ! i \<le> low" and ei1: "low < e ! (i + 1)"
    and ej: "e ! j \<le> high" and ej1: "high < e ! (j + 1)"
    using bl(3,4) bh(3,4) by (simp_all add: i_def j_def e_def)
  have si': "strictly_increasing e" using si by (simp add: e_def)
  have ij: "i \<le> j"
  proof (rule ccontr)
    assume "\<not> i \<le> j"
    then have "j + 1 \<le> i" by simp
    then have "e ! (j + 1) \<le> e ! i"
      using strictly_increasing_le [OF si', of i "j + 1"] i_lt len by simp
    with ei lh ej1 show False by simp
  qed
  have ej': "e ! j < high"
  proof -
    have "e ! j \<in> set e" using j_lt len by simp
    then have "e ! j \<noteq> high" using off by (auto simp: e_def)
    with ej show ?thesis by simp
  qed
  have st: "0 < step v"
    using axis_step_pos [of h v] si i_lt by (simp add: v_def)
  have inb: "start v + (count v - 1) * step v < length (h ! base v)"
    using inb0 i_lt by auto
  define w where "w = arr_slice v (int i) (int (j + 1) + 1)"
  define ha where "ha = snd (arr_setitem h w 0 low)"
  define hb where "hb = snd (arr_setitem ha w (- 1) high)"
  have ab: "i < j + 1" using ij by simp
  note cb = clip_both_vals [OF b0 st inb ab j_lt w_def ha_def hb_def]
  define xs where "xs = arr_vals hb w"
  define d where "d = j + 1 - i"
  have d0: "0 < d" and id: "i + d = j + 1" using ij by (simp_all add: d_def)
  have lxs: "length xs = d + 1" by (simp add: xs_def cb(3) d_def)
  have nth: "xs ! k = (if k = d then high else if k = 0 then low else e ! (i + k))"
    if "k < d + 1" for k
    using cb(4) [of k] that by (simp add: xs_def e_def v_def d_def)
  have si_xs: "strictly_increasing xs"
  proof (rule strictly_increasingI)
    fix k assume "Suc k < length xs"
    then have k: "Suc k < d + 1" by (simp add: lxs)
    then have k': "k < d + 1" and k_ne: "k \<noteq> d" by simp_all
    have xk: "xs ! k = (if k = 0 then low else e ! (i + k))"
      using nth [OF k'] k_ne by simp
    have xk1: "xs ! Suc k = (if Suc k = d then high else e ! (i + Suc k))"
      using nth [OF k] by simp
    show "xs ! k < xs ! Suc k"
    proof (cases "k = 0")
      case k0: True
      show ?thesis
      proof (cases "Suc k = d")
        case True
        then show ?thesis unfolding xk xk1 using k0 lh by simp
      next
        case False
        then show ?thesis unfolding xk xk1 using k0 ei1 by simp
      qed
    next
      case kp: False
      show ?thesis
      proof (cases "Suc k = d")
        case True
        then have "i + k = j" using id by simp
        then show ?thesis unfolding xk xk1 using True kp ej' by simp
      next
        case False
        have "Suc (i + k) < length e" using k id j_lt len by simp
        then have "e ! (i + k) < e ! Suc (i + k)"
          by (rule strictly_increasing_nth [OF si'])
        then show ?thesis unfolding xk xk1 using False kp by simp
      qed
    qed
  qed
  have ci_lo: "cut_index h self (Some low) ''clip'' ''low'' 0 = Inr (int i)"
    by (simp add: cut_index_def edge_index_low bi)
  have ci_hi: "cut_index h self (Some high) ''clip'' ''high'' (int (count (edges self)) - 1)
                 = Inr (int (j + 1))"
    using j_lt by (simp add: cut_index_def edge_index_high bj nbins_def v_def)
  have nb: "\<not> nbins self < 0" using i_lt by (simp add: nbins_def v_def)
  have c1: "arr_setitem h w 0 low = (Inr (), ha)"
    using cb(1) by (simp add: ha_def prod_eq_iff)
  have c2: "arr_setitem ha w (- 1) high = (Inr (), hb)"
    using cb(2) by (simp add: hb_def prod_eq_iff)
  define ax where "ax = \<lparr>edges = \<lparr>base = length hb, start = 0, step = 1, count = count w\<rparr>,
                          label = label_setter (map_option PyStr (label self))\<rparr>"
  define mask where "mask = mask_slice (nat (nbins self)) (int i) (int (j + 1))"
  have "cut_axis h self (Some low) (Some high) (SnapStr ''clip'')
          = (Inr (ax, mask), hb @ [xs])"
    unfolding ax_def mask_def xs_def
    using ci_lo ci_hi nb w_def [unfolded v_def] c1 c2 si_xs [unfolded xs_def]
    by (rule cut_axis_clip_steps)
  moreover have vals: "edge_list (hb @ [xs]) ax = xs"
    using arr_vals_alloc [of hb xs] by (simp add: alloc_def ax_def lxs cb(3) d_def)
  moreover have "xs ! 0 = low" using nth [of 0] d0 by simp
  moreover have "last xs = high"
  proof -
    have "xs \<noteq> []" using lxs by auto
    then have "last xs = xs ! d" using lxs by (simp add: last_conv_nth)
    then show ?thesis using nth [of d] by simp
  qed
  ultimately show ?thesis by (metis (no_types))
qed

end
